theory Spec2Isabelle
  imports Main "HOL-Library.AList" "HOL-Library.Sublist"
begin

section \<open>Data model of the move index\<close>

text \<open>
  The class \<open>MoveIndex\<close> of the indexer, in its version with roles, colours and game
  results, and the types \<open>PositionBucket\<close> and \<open>SerializedBucket\<close> it works on.

  A JavaScript \<open>Map\<close> keeps its keys in insertion order: \<open>set\<close> on a present key
  overwrites the value where it stands, \<open>set\<close> on a new key appends the entry. It is
  modelled as an association list; \<open>get\<close> is \<^const>\<open>map_of\<close> and \<open>set\<close> is
  \<^const>\<open>AList.update\<close>, which has exactly this overwrite-or-append behaviour.
  Counters are JavaScript numbers that only ever hold integers; they are of type \<open>int\<close>.
\<close>

type_synonym CountMap = "(string \<times> int) list"

record Results =
  win :: int
  loss :: int
  draw :: int

record PositionBucket =
  total :: int
  moveCounts :: CountMap
  toSquareCounts :: CountMap
  fromSquareCounts :: CountMap
  results :: Results
  userTotal :: int
  userMoveCounts :: CountMap
  userToSquareCounts :: CountMap
  oppTotal :: int
  oppMoveCounts :: CountMap
  oppToSquareCounts :: CountMap
  userWhiteTotal :: int
  userWhiteMoveCounts :: CountMap
  userWhiteToSquareCounts :: CountMap
  userBlackTotal :: int
  userBlackMoveCounts :: CountMap
  userBlackToSquareCounts :: CountMap
  oppWhiteTotal :: int
  oppWhiteMoveCounts :: CountMap
  oppWhiteToSquareCounts :: CountMap
  oppBlackTotal :: int
  oppBlackMoveCounts :: CountMap
  oppBlackToSquareCounts :: CountMap

text \<open>The private field \<open>index: Map<string, PositionBucket>\<close> of class \<open>MoveIndex\<close>.\<close>

type_synonym MoveIndex = "(string \<times> PositionBucket) list"

datatype Color = White | Black

datatype Outcome = Win | Loss | Draw

text \<open>The object literal that \<open>addMove\<close> and \<open>addResult\<close> store for a new position.\<close>

definition newBucket :: PositionBucket where
  "newBucket = \<lparr> total = 0, moveCounts = [], toSquareCounts = [], fromSquareCounts = [],
     results = \<lparr> win = 0, loss = 0, draw = 0 \<rparr>,
     userTotal = 0, userMoveCounts = [], userToSquareCounts = [],
     oppTotal = 0, oppMoveCounts = [], oppToSquareCounts = [],
     userWhiteTotal = 0, userWhiteMoveCounts = [], userWhiteToSquareCounts = [],
     userBlackTotal = 0, userBlackMoveCounts = [], userBlackToSquareCounts = [],
     oppWhiteTotal = 0, oppWhiteMoveCounts = [], oppWhiteToSquareCounts = [],
     oppBlackTotal = 0, oppBlackMoveCounts = [], oppBlackToSquareCounts = [] \<rparr>"

text \<open>\<open>m.set(k, (m.get(k) ?? 0) + 1)\<close>\<close>

definition bump :: "string \<Rightarrow> CountMap \<Rightarrow> CountMap" where
  "bump k m = AList.update k ((case map_of m k of None \<Rightarrow> 0 | Some c \<Rightarrow> c) + 1) m"

text \<open>\<open>this.index.get(fen)\<close>, with a fresh bucket when the position is absent.\<close>

definition bucketOrNew :: "MoveIndex \<Rightarrow> string \<Rightarrow> PositionBucket" where
  "bucketOrNew idx fen = (case map_of idx fen of None \<Rightarrow> newBucket | Some b \<Rightarrow> b)"

subsection \<open>addMove\<close>

text \<open>The unconditional part of \<open>addMove\<close>: the global counters.\<close>

definition addGlobal :: "string \<Rightarrow> string \<Rightarrow> string \<Rightarrow> PositionBucket \<Rightarrow> PositionBucket" where
  "addGlobal key from to b =
     b\<lparr> total := total b + 1,
        moveCounts := bump key (moveCounts b),
        toSquareCounts := bump to (toSquareCounts b),
        fromSquareCounts := bump from (fromSquareCounts b) \<rparr>"

text \<open>The branch \<open>byUser === true\<close>, with its inner split on \<open>color\<close>.\<close>

definition addUser :: "string \<Rightarrow> string \<Rightarrow> Color option \<Rightarrow> PositionBucket \<Rightarrow> PositionBucket" where
  "addUser key to color b =
     (let b1 = b\<lparr> userTotal := userTotal b + 1,
                  userMoveCounts := bump key (userMoveCounts b),
                  userToSquareCounts := bump to (userToSquareCounts b) \<rparr>
      in case color of
           Some White \<Rightarrow>
             b1\<lparr> userWhiteTotal := userWhiteTotal b1 + 1,
                 userWhiteMoveCounts := bump key (userWhiteMoveCounts b1),
                 userWhiteToSquareCounts := bump to (userWhiteToSquareCounts b1) \<rparr>
         | Some Black \<Rightarrow>
             b1\<lparr> userBlackTotal := userBlackTotal b1 + 1,
                 userBlackMoveCounts := bump key (userBlackMoveCounts b1),
                 userBlackToSquareCounts := bump to (userBlackToSquareCounts b1) \<rparr>
         | None \<Rightarrow> b1)"

text \<open>The branch \<open>byUser === false\<close>.\<close>

definition addOpp :: "string \<Rightarrow> string \<Rightarrow> Color option \<Rightarrow> PositionBucket \<Rightarrow> PositionBucket" where
  "addOpp key to color b =
     (let b1 = b\<lparr> oppTotal := oppTotal b + 1,
                  oppMoveCounts := bump key (oppMoveCounts b),
                  oppToSquareCounts := bump to (oppToSquareCounts b) \<rparr>
      in case color of
           Some White \<Rightarrow>
             b1\<lparr> oppWhiteTotal := oppWhiteTotal b1 + 1,
                 oppWhiteMoveCounts := bump key (oppWhiteMoveCounts b1),
                 oppWhiteToSquareCounts := bump to (oppWhiteToSquareCounts b1) \<rparr>
         | Some Black \<Rightarrow>
             b1\<lparr> oppBlackTotal := oppBlackTotal b1 + 1,
                 oppBlackMoveCounts := bump key (oppBlackMoveCounts b1),
                 oppBlackToSquareCounts := bump to (oppBlackToSquareCounts b1) \<rparr>
         | None \<Rightarrow> b1)"

text \<open>
  \<open>addMove(fen, {from, to, promotion}, byUser?, color?)\<close>. The optional parameters are
  \<open>option\<close> values: \<open>None\<close> is \<open>undefined\<close>, for which neither role branch runs;
  \<open>moveKey\<close> is the template string \<open>from + to + (promotion ?? '')\<close>. The
  source stores a new bucket first and then mutates the stored object; the model computes
  the mutated bucket and stores it, which leaves the same map (a present key keeps its
  place, a new key goes last).
\<close>

definition moveKey :: "string \<Rightarrow> string \<Rightarrow> string option \<Rightarrow> string" where
  "moveKey from to promotion = from @ to @ (case promotion of None \<Rightarrow> [] | Some p \<Rightarrow> p)"

definition addRole ::
  "bool option \<Rightarrow> Color option \<Rightarrow> string \<Rightarrow> string \<Rightarrow> PositionBucket \<Rightarrow> PositionBucket" where
  "addRole byUser color key to b =
     (case byUser of
        Some True \<Rightarrow> addUser key to color b
      | Some False \<Rightarrow> addOpp key to color b
      | None \<Rightarrow> b)"

definition addMove ::
  "string \<Rightarrow> string \<Rightarrow> string \<Rightarrow> string option \<Rightarrow> bool option \<Rightarrow> Color option \<Rightarrow>
   MoveIndex \<Rightarrow> MoveIndex" where
  "addMove fen from to promotion byUser color idx =
     (let bucket = bucketOrNew idx fen;
          key = moveKey from to promotion
      in AList.update fen (addRole byUser color key to (addGlobal key from to bucket)) idx)"

subsection \<open>addResult\<close>

definition bumpResult :: "Outcome \<Rightarrow> Results \<Rightarrow> Results" where
  "bumpResult outcome r =
     (case outcome of
        Win \<Rightarrow> r\<lparr> win := win r + 1 \<rparr>
      | Loss \<Rightarrow> r\<lparr> loss := loss r + 1 \<rparr>
      | Draw \<Rightarrow> r\<lparr> draw := draw r + 1 \<rparr>)"

definition addResult :: "string \<Rightarrow> Outcome \<Rightarrow> MoveIndex \<Rightarrow> MoveIndex" where
  "addResult fen outcome idx =
     (let bucket = bucketOrNew idx fen
      in AList.update fen (bucket\<lparr> results := bumpResult outcome (results bucket) \<rparr>) idx)"

section \<open>The rules engine (chess.js) as a parameter\<close>

text \<open>
  The index uses the external library chess.js for everything about chess. Its interface is
  a parameter of the model, over an arbitrary type \<open>'b\<close> of board states:
  \<^item> \<open>newChess\<close> is \<open>new Chess()\<close>, and \<open>fenOf\<close> is \<open>chess.fen()\<close>;
  \<^item> \<open>moveObj board from to promotion\<close> is \<open>chess.move({from, to, promotion})\<close>:
    \<open>None\<close> when the call throws, as it does for an illegal move, otherwise the board
    after the move and the resolved move;
  \<^item> \<open>moveSan board san\<close> is \<open>chess.move(san)\<close>: \<open>None\<close> when the call throws or
    returns \<open>null\<close> (the callers leave their loop in both cases), otherwise the board
    after the move and the resolved move;
  \<^item> \<open>loadPgn pgn\<close> is \<open>chess.loadPgn(pgn, {strict: false})\<close> followed by
    \<open>chess.getHeaders()\<close> and \<open>chess.history()\<close>: \<open>None\<close> when parsing throws, otherwise
    the headers and the list of moves in algebraic notation.
\<close>

record Move =
  moveFrom :: string
  moveTo :: string
  movePromotion :: "string option"
  moveColor :: Color

record 'b Chess =
  newChess :: 'b
  fenOf :: "'b \<Rightarrow> string"
  moveObj :: "'b \<Rightarrow> string \<Rightarrow> string \<Rightarrow> string option \<Rightarrow> ('b \<times> Move) option"
  moveSan :: "'b \<Rightarrow> string \<Rightarrow> ('b \<times> Move) option"
  loadPgn :: "string \<Rightarrow> ((string \<times> string) list \<times> string list) option"

section \<open>Strings\<close>

text \<open>
  \<open>String.prototype.trim\<close> and \<open>toLowerCase\<close>, on 8-bit characters: the white space is
  the ASCII white space, and the letters with a lower case are \<open>A\<close> to \<open>Z\<close>.
\<close>

definition isSpace :: "char \<Rightarrow> bool" where
  "isSpace c \<longleftrightarrow> c \<in> set [CHR 0x09, CHR 0x0A, CHR 0x0B, CHR 0x0C, CHR 0x0D, CHR 0x20]"

definition trim :: "string \<Rightarrow> string" where
  "trim s = rev (dropWhile isSpace (rev (dropWhile isSpace s)))"

definition lowerChar :: "char \<Rightarrow> char" where
  "lowerChar c =
     (case map_of (zip ''ABCDEFGHIJKLMNOPQRSTUVWXYZ'' ''abcdefghijklmnopqrstuvwxyz'') c of
        None \<Rightarrow> c
      | Some d \<Rightarrow> d)"

definition toLowerCase :: "string \<Rightarrow> string" where
  "toLowerCase s = map lowerChar s"

text \<open>\<open>(headers[name] || '').toString()\<close>: a missing header reads as the empty string.\<close>

definition header :: "(string \<times> string) list \<Rightarrow> string \<Rightarrow> string" where
  "header headers name = (case map_of headers name of None \<Rightarrow> [] | Some v \<Rightarrow> v)"

section \<open>Ingestion\<close>

subsection \<open>ingestUciMoves\<close>

text \<open>
  The loop body calls \<open>addMove\<close> first and \<open>chess.move\<close> second; a throwing
  \<open>chess.move\<close> leaves the loop.
\<close>

fun ingestUciLoop :: "'b Chess \<Rightarrow> 'b \<Rightarrow> string list \<Rightarrow> MoveIndex \<Rightarrow> MoveIndex" where
  "ingestUciLoop eng chess [] idx = idx"
| "ingestUciLoop eng chess (uci # rest) idx =
     (let fenBefore = fenOf eng chess;
          from = take 2 uci;
          to = take 2 (drop 2 uci);
          promotion = (if length uci > 4 then Some (take 1 (drop 4 uci)) else None);
          idx1 = addMove fenBefore from to promotion None None idx
      in case moveObj eng chess from to promotion of
           None \<Rightarrow> idx1
         | Some (chess1, mv) \<Rightarrow> ingestUciLoop eng chess1 rest idx1)"

definition ingestUciMoves :: "'b Chess \<Rightarrow> string list \<Rightarrow> MoveIndex \<Rightarrow> MoveIndex" where
  "ingestUciMoves eng uciMoves idx = ingestUciLoop eng (newChess eng) uciMoves idx"

subsection \<open>ingestSanMoves\<close>

fun ingestSanLoop :: "'b Chess \<Rightarrow> 'b \<Rightarrow> string list \<Rightarrow> MoveIndex \<Rightarrow> MoveIndex" where
  "ingestSanLoop eng chess [] idx = idx"
| "ingestSanLoop eng chess (san # rest) idx =
     (let fenBefore = fenOf eng chess
      in case moveSan eng chess san of
           None \<Rightarrow> idx
         | Some (chess1, mv) \<Rightarrow>
             ingestSanLoop eng chess1 rest
               (addMove fenBefore (moveFrom mv) (moveTo mv) (movePromotion mv) None None idx))"

definition ingestSanMoves :: "'b Chess \<Rightarrow> string list \<Rightarrow> MoveIndex \<Rightarrow> MoveIndex" where
  "ingestSanMoves eng sanMoves idx = ingestSanLoop eng (newChess eng) sanMoves idx"

subsection \<open>ingestGamePgn\<close>

text \<open>
  The replay loop of \<open>ingestGamePgn\<close>. \<open>seenThisGame\<close> is the set of positions that already
  got this game's result; \<open>outcome\<close> is \<open>None\<close> for the source's \<open>null\<close>.
\<close>

fun ingestPgnLoop ::
  "'b Chess \<Rightarrow> string \<Rightarrow> string \<Rightarrow> string \<Rightarrow> Outcome option \<Rightarrow>
   'b \<Rightarrow> string set \<Rightarrow> string list \<Rightarrow> MoveIndex \<Rightarrow> MoveIndex" where
  "ingestPgnLoop eng userLower whiteName blackName outcome walker seenThisGame [] idx = idx"
| "ingestPgnLoop eng userLower whiteName blackName outcome walker seenThisGame (san # rest) idx =
     (let fenBefore = fenOf eng walker
      in case moveSan eng walker san of
           None \<Rightarrow> idx
         | Some (walker1, m) \<Rightarrow>
             (let colorToMove = moveColor m;
                  byUser = ((colorToMove = White \<and> userLower = whiteName)
                            \<or> (colorToMove = Black \<and> userLower = blackName));
                  idx1 = addMove fenBefore (moveFrom m) (moveTo m) (movePromotion m)
                           (Some byUser) (Some colorToMove) idx
              in case outcome of
                   Some oc \<Rightarrow>
                     (if fenBefore \<notin> seenThisGame
                      then ingestPgnLoop eng userLower whiteName blackName outcome walker1
                             (insert fenBefore seenThisGame) rest (addResult fenBefore oc idx1)
                      else ingestPgnLoop eng userLower whiteName blackName outcome walker1
                             seenThisGame rest idx1)
                 | None \<Rightarrow>
                     ingestPgnLoop eng userLower whiteName blackName outcome walker1
                       seenThisGame rest idx1))"

definition ingestGamePgn :: "'b Chess \<Rightarrow> string \<Rightarrow> string \<Rightarrow> MoveIndex \<Rightarrow> MoveIndex" where
  "ingestGamePgn eng username pgn idx =
     (case loadPgn eng pgn of
        None \<Rightarrow> idx
      | Some (headers, moves) \<Rightarrow>
          (let userLower = toLowerCase (trim username);
               whiteName = toLowerCase (trim (header headers ''White''));
               blackName = toLowerCase (trim (header headers ''Black''));
               resultTag = trim (header headers ''Result'')
           in if resultTag = ''1-0'' \<or> resultTag = ''0-1'' \<or> resultTag = ''1/2-1/2''
              then (let userIsWhite = (userLower = whiteName);
                        userIsBlack = (userLower = blackName)
                    in if \<not> userIsWhite \<and> \<not> userIsBlack then idx
                       else (let outcome =
                                   (if resultTag = ''1/2-1/2'' then Draw
                                    else if resultTag = ''1-0''
                                         then (if userIsWhite then Win else Loss)
                                         else (if userIsBlack then Win else Loss))
                             in ingestPgnLoop eng userLower whiteName blackName (Some outcome)
                                  (newChess eng) {} moves idx))
              else ingestPgnLoop eng userLower whiteName blackName None
                     (newChess eng) {} moves idx))"

subsection \<open>clear, size and sequences of operations\<close>

definition clear :: "MoveIndex \<Rightarrow> MoveIndex" where
  "clear idx = []"

definition size_of :: "MoveIndex \<Rightarrow> nat" where
  "size_of idx = length idx"

datatype Operation =
    IngestUciMoves "string list"
  | IngestSanMoves "string list"
  | IngestGamePgn string string
  | Clear

fun applyOperation :: "'b Chess \<Rightarrow> Operation \<Rightarrow> MoveIndex \<Rightarrow> MoveIndex" where
  "applyOperation eng (IngestUciMoves ms) idx = ingestUciMoves eng ms idx"
| "applyOperation eng (IngestSanMoves ms) idx = ingestSanMoves eng ms idx"
| "applyOperation eng (IngestGamePgn username pgn) idx = ingestGamePgn eng username pgn idx"
| "applyOperation eng Clear idx = clear idx"

text \<open>The index after a sequence of operations on \<open>new MoveIndex()\<close>.\<close>

definition built :: "'b Chess \<Rightarrow> Operation list \<Rightarrow> MoveIndex" where
  "built eng ops = fold (applyOperation eng) ops []"

section \<open>Queries\<close>

definition getBucket :: "MoveIndex \<Rightarrow> string \<Rightarrow> PositionBucket option" where
  "getBucket idx fen = map_of idx fen"






record ResultStats =
  statWin :: int
  statLoss :: int
  statDraw :: int
  statTotal :: int

definition getResultStats :: "MoveIndex \<Rightarrow> string \<Rightarrow> ResultStats" where
  "getResultStats idx fen =
     (case map_of idx fen of
        None \<Rightarrow> \<lparr> statWin = 0, statLoss = 0, statDraw = 0, statTotal = 0 \<rparr>
      | Some b \<Rightarrow>
          \<lparr> statWin = win (results b), statLoss = loss (results b), statDraw = draw (results b),
            statTotal = win (results b) + loss (results b) + draw (results b) \<rparr>)"

section \<open>Serialization\<close>

text \<open>
  \<open>SerializedBucket\<close>. The fields that \<open>fromSerialized\<close> reads through \<open>??\<close> or \<open>?.\<close>
  may be missing from a stored record, so they are \<open>option\<close> values (\<open>None\<close> is an absent
  field); the array \<open>r\<close> is a list, which may be shorter than three. The field names carry
  the prefix \<open>sb_\<close>, since \<open>t\<close>, \<open>m\<close> and \<open>r\<close> are needed as variable names.
\<close>

record SerializedBucket =
  sb_t :: int
  sb_m :: "(string \<times> int) list"
  sb_to :: "(string \<times> int) list"
  sb_fr :: "(string \<times> int) list"
  sb_r :: "int list option"
  sb_ut :: "int option"
  sb_um :: "(string \<times> int) list option"
  sb_uto :: "(string \<times> int) list option"
  sb_ot :: "int option"
  sb_om :: "(string \<times> int) list option"
  sb_oto :: "(string \<times> int) list option"
  sb_uwt :: "int option"
  sb_uwm :: "(string \<times> int) list option"
  sb_uwto :: "(string \<times> int) list option"
  sb_ubt :: "int option"
  sb_ubm :: "(string \<times> int) list option"
  sb_ubto :: "(string \<times> int) list option"
  sb_owt :: "int option"
  sb_owm :: "(string \<times> int) list option"
  sb_owto :: "(string \<times> int) list option"
  sb_obt :: "int option"
  sb_obm :: "(string \<times> int) list option"
  sb_obto :: "(string \<times> int) list option"

text \<open>
  \<open>SerializedIndex\<close> is a plain object keyed by position; its own keys are enumerated in
  the order of their creation (the keys are position strings, never array indices), so it
  is an association list as well, with property assignment as \<^const>\<open>AList.update\<close>.
\<close>

type_synonym SerializedIndex = "(string \<times> SerializedBucket) list"


text \<open>\<open>new Map(pairs)\<close>: the pairs are set one after the other on an empty map.\<close>

definition newMap :: "(string \<times> int) list \<Rightarrow> CountMap" where
  "newMap pairs = fold (\<lambda>p m. AList.update (fst p) (snd p) m) pairs []"

text \<open>\<open>x ?? 0\<close>, \<open>x ?? []\<close> and \<open>s.r?.[i] ?? 0\<close>\<close>

definition orZero :: "int option \<Rightarrow> int" where
  "orZero x = (case x of None \<Rightarrow> 0 | Some v \<Rightarrow> v)"

definition orEmpty :: "(string \<times> int) list option \<Rightarrow> (string \<times> int) list" where
  "orEmpty x = (case x of None \<Rightarrow> [] | Some v \<Rightarrow> v)"

definition rAt :: "int list option \<Rightarrow> nat \<Rightarrow> int" where
  "rAt r i = (case r of None \<Rightarrow> 0 | Some xs \<Rightarrow> if i < length xs then xs ! i else 0)"



definition deserializeBucket :: "SerializedBucket \<Rightarrow> PositionBucket" where
  "deserializeBucket s =
     \<lparr> total = sb_t s,
       moveCounts = newMap (sb_m s),
       toSquareCounts = newMap (sb_to s),
       fromSquareCounts = newMap (sb_fr s),
       results = \<lparr> win = rAt (sb_r s) 0, loss = rAt (sb_r s) 1, draw = rAt (sb_r s) 2 \<rparr>,
       userTotal = orZero (sb_ut s),
       userMoveCounts = newMap (orEmpty (sb_um s)),
       userToSquareCounts = newMap (orEmpty (sb_uto s)),
       oppTotal = orZero (sb_ot s),
       oppMoveCounts = newMap (orEmpty (sb_om s)),
       oppToSquareCounts = newMap (orEmpty (sb_oto s)),
       userWhiteTotal = orZero (sb_uwt s),
       userWhiteMoveCounts = newMap (orEmpty (sb_uwm s)),
       userWhiteToSquareCounts = newMap (orEmpty (sb_uwto s)),
       userBlackTotal = orZero (sb_ubt s),
       userBlackMoveCounts = newMap (orEmpty (sb_ubm s)),
       userBlackToSquareCounts = newMap (orEmpty (sb_ubto s)),
       oppWhiteTotal = orZero (sb_owt s),
       oppWhiteMoveCounts = newMap (orEmpty (sb_owm s)),
       oppWhiteToSquareCounts = newMap (orEmpty (sb_owto s)),
       oppBlackTotal = orZero (sb_obt s),
       oppBlackMoveCounts = newMap (orEmpty (sb_obm s)),
       oppBlackToSquareCounts = newMap (orEmpty (sb_obto s)) \<rparr>"

text \<open>
  \<open>fromSerialized\<close> walks \<open>Object.keys(data)\<close> and stores one bucket per key. Every key
  comes from \<open>data\<close>, so the lookup \<open>data[fen]\<close> finds a record; the \<open>None\<close> branch is
  there for totality only.
\<close>

definition fromSerialized :: "SerializedIndex \<Rightarrow> MoveIndex" where
  "fromSerialized data =
     fold (\<lambda>fen idx. case map_of data fen of
                        None \<Rightarrow> idx
                      | Some s \<Rightarrow> AList.update fen (deserializeBucket s) idx)
          (map fst data) []"

section \<open>A fragment of the rules engine, for concrete runs\<close>

text \<open>
  Three positions of a real game, with the identifiers chess.js gives them and the moves
  between them: the starting position, the position after 1. Nf3, and the one after
  1. Nf3 Nf6. Every other move is refused, which is right for the illegal moves tried below.
\<close>

datatype Board = Start | AfterNf3 | AfterNf3Nf6

definition startFen :: string where
  "startFen = ''rnbqkbnr/pppppppp/8/8/8/8/PPPPPPPP/RNBQKBNR w KQkq - 0 1''"

definition afterNf3Fen :: string where
  "afterNf3Fen = ''rnbqkbnr/pppppppp/8/8/8/5N2/PPPPPPPP/RNBQKB1R b KQkq - 1 1''"

definition afterNf3Nf6Fen :: string where
  "afterNf3Nf6Fen = ''rnbqkb1r/pppppppp/5n2/8/8/5N2/PPPPPPPP/RNBQKB1R w KQkq - 2 2''"

fun fragFen :: "Board \<Rightarrow> string" where
  "fragFen Start = startFen"
| "fragFen AfterNf3 = afterNf3Fen"
| "fragFen AfterNf3Nf6 = afterNf3Nf6Fen"

definition whiteNf3 :: Move where
  "whiteNf3 = \<lparr> moveFrom = ''g1'', moveTo = ''f3'', movePromotion = None, moveColor = White \<rparr>"

definition blackNf6 :: Move where
  "blackNf6 = \<lparr> moveFrom = ''g8'', moveTo = ''f6'', movePromotion = None, moveColor = Black \<rparr>"

definition fragMoveObj :: "Board \<Rightarrow> string \<Rightarrow> string \<Rightarrow> string option \<Rightarrow> (Board \<times> Move) option" where
  "fragMoveObj b from to promotion =
     (if b = Start \<and> from = ''g1'' \<and> to = ''f3'' \<and> promotion = None
        then Some (AfterNf3, whiteNf3)
      else if b = AfterNf3 \<and> from = ''g8'' \<and> to = ''f6'' \<and> promotion = None
        then Some (AfterNf3Nf6, blackNf6)
      else None)"

definition fragMoveSan :: "Board \<Rightarrow> string \<Rightarrow> (Board \<times> Move) option" where
  "fragMoveSan b san =
     (if b = Start \<and> san = ''Nf3'' then Some (AfterNf3, whiteNf3)
      else if b = AfterNf3 \<and> san = ''Nf6'' then Some (AfterNf3Nf6, blackNf6)
      else None)"

text \<open>Game records: \<open>[White "w"]\<close>, \<open>[Black "b"]\<close>, \<open>[Result "r"]\<close>, then 1. Nf3 Nf6.\<close>

definition tagPair :: "string \<Rightarrow> string \<Rightarrow> string" where
  "tagPair name v = ''['' @ name @ '' '' @ [CHR 0x22] @ v @ [CHR 0x22] @ '']'' @ [CHR 0x0A]"

definition gameRecord :: "string \<Rightarrow> string \<Rightarrow> string \<Rightarrow> string" where
  "gameRecord w b r =
     tagPair ''White'' w @ tagPair ''Black'' b @ tagPair ''Result'' r
       @ [CHR 0x0A] @ ''1. Nf3 Nf6 '' @ r"

definition knownGames :: "(string \<times> string \<times> string) list" where
  "knownGames =
     [(''alice'', ''bob'', ''1-0''), ('' Alice '', ''bob'', ''1-0''),
      (''bob'', ''carol'', ''0-1''), (''bob'', ''carol'', ''*'')]"

definition fragLoadPgn :: "string \<Rightarrow> ((string \<times> string) list \<times> string list) option" where
  "fragLoadPgn pgn =
     map_option
       (\<lambda>g. case g of (w, b, r) \<Rightarrow>
              ([(''White'', w), (''Black'', b), (''Result'', r)], [''Nf3'', ''Nf6'']))
       (find (\<lambda>g. case g of (w, b, r) \<Rightarrow> pgn = gameRecord w b r) knownGames)"

definition frag :: "Board Chess" where
  "frag = \<lparr> newChess = Start, fenOf = fragFen, moveObj = fragMoveObj,
            moveSan = fragMoveSan, loadPgn = fragLoadPgn \<rparr>"

section \<open>The index as a store of bucket objects\<close>

text \<open>
  The buckets are objects: the \<open>Map\<close> of the index holds references to them, and
  \<open>getBucket\<close> returns \<open>this.index.get(fen) ?? null\<close>, the reference itself. To say
  what a caller can do with the returned value, the objects are kept in a store: \<open>slots\<close>
  is the \<open>Map\<close> from positions to references, \<open>heap\<close> gives the object of a
  reference, and \<open>nextRef\<close> is the next unused reference. The index as a value, which
  the rest of the development works with, is the \<open>contents\<close> of the store.
\<close>

type_synonym Ref = nat

record Store =
  slots :: "(string \<times> Ref) list"
  heap :: "Ref \<Rightarrow> PositionBucket option"
  nextRef :: Ref


definition contents :: "Store \<Rightarrow> MoveIndex" where
  "contents st = List.map_filter (\<lambda>p. map_option (Pair (fst p)) (heap st (snd p))) (slots st)"


text \<open>
  What a holder of a reference can do: change the object in place (assign to a field, call
  \<open>set\<close> on one of its maps). \<open>f\<close> is the change.
\<close>

definition mutate :: "Ref \<Rightarrow> (PositionBucket \<Rightarrow> PositionBucket) \<Rightarrow> Store \<Rightarrow> Store" where
  "mutate r f st =
     (case heap st r of
        None \<Rightarrow> st
      | Some b \<Rightarrow> st\<lparr> heap := (heap st)(r \<mapsto> f b) \<rparr>)"

text \<open>
  \<open>addMove\<close> and \<open>addResult\<close> on the store, as the source writes them: look the
  position up, store a reference to a new object if there is none, then change the object
  in place.
\<close>

definition storeBucketOrNew :: "Store \<Rightarrow> string \<Rightarrow> Ref \<times> Store" where
  "storeBucketOrNew st fen =
     (case map_of (slots st) fen of
        Some r \<Rightarrow> (r, st)
      | None \<Rightarrow>
          (nextRef st,
           st\<lparr> slots := slots st @ [(fen, nextRef st)],
               heap := (heap st)(nextRef st \<mapsto> newBucket),
               nextRef := Suc (nextRef st) \<rparr>))"


definition storeAddResult :: "string \<Rightarrow> Outcome \<Rightarrow> Store \<Rightarrow> Store" where
  "storeAddResult fen outcome st =
     (case storeBucketOrNew st fen of
        (bucket, st1) \<Rightarrow>
          mutate bucket (\<lambda>b. b\<lparr> results := bumpResult outcome (results b) \<rparr>) st1)"

text \<open>
  The stores that the index can be in: one reference per position, no reference shared by
  two positions, and every reference allocated.
\<close>

definition storeOk :: "Store \<Rightarrow> bool" where
  "storeOk st \<longleftrightarrow>
     distinct (map fst (slots st)) \<and> distinct (map snd (slots st))
     \<and> (\<forall>p \<in> set (slots st). snd p < nextRef st \<and> heap st (snd p) \<noteq> None)"



section \<open>Notions used to state the properties\<close>

text \<open>The sum of the values of a count map.\<close>

definition sumCounts :: "CountMap \<Rightarrow> int" where
  "sumCounts m = sum_list (map snd m)"

text \<open>A property of buckets holds at a position when the bucket stored there, if any, has it.\<close>

definition holdsAt :: "(PositionBucket \<Rightarrow> bool) \<Rightarrow> MoveIndex \<Rightarrow> string \<Rightarrow> bool" where
  "holdsAt P idx fen = (case map_of idx fen of None \<Rightarrow> True | Some b \<Rightarrow> P b)"

text \<open>
  The positions at which a run of \<open>ingestUciMoves\<close> calls \<open>addMove\<close>, in order: the
  position before every move the loop reaches, the refused one included.
\<close>

fun uciPositions :: "'b Chess \<Rightarrow> 'b \<Rightarrow> string list \<Rightarrow> string list" where
  "uciPositions eng chess [] = []"
| "uciPositions eng chess (uci # rest) =
     fenOf eng chess #
       (case moveObj eng chess (take 2 uci) (take 2 (drop 2 uci))
               (if length uci > 4 then Some (take 1 (drop 4 uci)) else None) of
          None \<Rightarrow> []
        | Some (chess1, mv) \<Rightarrow> uciPositions eng chess1 rest)"

text \<open>
  The positions at which the replay of a list of moves in algebraic notation calls
  \<open>addMove\<close> (in \<open>ingestSanMoves\<close> and in \<open>ingestGamePgn\<close>): the position before every
  move that the engine accepts, up to the first refused one.
\<close>

fun sanPositions :: "'b Chess \<Rightarrow> 'b \<Rightarrow> string list \<Rightarrow> string list" where
  "sanPositions eng chess [] = []"
| "sanPositions eng chess (san # rest) =
     (case moveSan eng chess san of
        None \<Rightarrow> []
      | Some (chess1, mv) \<Rightarrow> fenOf eng chess # sanPositions eng chess1 rest)"

text \<open>The positions that an operation records a move for without saying who moved.\<close>

fun barePositions :: "'b Chess \<Rightarrow> Operation \<Rightarrow> string set" where
  "barePositions eng (IngestUciMoves ms) = set (uciPositions eng (newChess eng) ms)"
| "barePositions eng (IngestSanMoves ms) = set (sanPositions eng (newChess eng) ms)"
| "barePositions eng (IngestGamePgn username pgn) = {}"
| "barePositions eng Clear = {}"

text \<open>
  A property of buckets is kept by identity-aware ingestion when the new bucket has it and
  a move with a role and a colour, and a result, keep it; it is kept by bare ingestion when
  a move without a role keeps it.
\<close>

definition roleClosed :: "(PositionBucket \<Rightarrow> bool) \<Rightarrow> bool" where
  "roleClosed P \<longleftrightarrow>
     P newBucket
     \<and> (\<forall>b key from to u c. P b \<longrightarrow> P (addRole (Some u) (Some c) key to (addGlobal key from to b)))
     \<and> (\<forall>b oc. P b \<longrightarrow> P (b\<lparr> results := bumpResult oc (results b) \<rparr>))"

definition bareClosed :: "(PositionBucket \<Rightarrow> bool) \<Rightarrow> bool" where
  "bareClosed P \<longleftrightarrow> (\<forall>b key from to. P b \<longrightarrow> P (addGlobal key from to b))"

definition marginalsAgree :: "PositionBucket \<Rightarrow> bool" where
  "marginalsAgree b \<longleftrightarrow>
     total b = sumCounts (moveCounts b)
     \<and> total b = sumCounts (toSquareCounts b)
     \<and> total b = sumCounts (fromSquareCounts b)"

definition rolesWithinTotal :: "PositionBucket \<Rightarrow> bool" where
  "rolesWithinTotal b \<longleftrightarrow>
     userTotal b + oppTotal b \<le> total b
     \<and> userWhiteTotal b + userBlackTotal b = userTotal b
     \<and> oppWhiteTotal b + oppBlackTotal b = oppTotal b"

definition rolesCoverTotal :: "PositionBucket \<Rightarrow> bool" where
  "rolesCoverTotal b \<longleftrightarrow> userTotal b + oppTotal b = total b"

text \<open>
  An association list stands for a \<open>Map\<close> only if its keys are distinct. An index is
  well formed when its positions are distinct and so are the keys of every count map.
\<close>

definition mapsDistinct :: "PositionBucket \<Rightarrow> bool" where
  "mapsDistinct b \<longleftrightarrow>
     distinct (map fst (moveCounts b)) \<and> distinct (map fst (toSquareCounts b))
     \<and> distinct (map fst (fromSquareCounts b))
     \<and> distinct (map fst (userMoveCounts b)) \<and> distinct (map fst (userToSquareCounts b))
     \<and> distinct (map fst (oppMoveCounts b)) \<and> distinct (map fst (oppToSquareCounts b))
     \<and> distinct (map fst (userWhiteMoveCounts b)) \<and> distinct (map fst (userWhiteToSquareCounts b))
     \<and> distinct (map fst (userBlackMoveCounts b)) \<and> distinct (map fst (userBlackToSquareCounts b))
     \<and> distinct (map fst (oppWhiteMoveCounts b)) \<and> distinct (map fst (oppWhiteToSquareCounts b))
     \<and> distinct (map fst (oppBlackMoveCounts b)) \<and> distinct (map fst (oppBlackToSquareCounts b))"

definition wellFormed :: "MoveIndex \<Rightarrow> bool" where
  "wellFormed idx \<longleftrightarrow> distinct (map fst idx) \<and> (\<forall>p \<in> set idx. mapsDistinct (snd p))"

text \<open>
  A run used below: one game of alice (White) against bob that White won, then the bare
  move list \<open>g1f3\<close>; and the two buckets it leaves.
\<close>

definition demoOps :: "Operation list" where
  "demoOps = [IngestGamePgn ''alice'' (gameRecord ''alice'' ''bob'' ''1-0''),
              IngestUciMoves [''g1f3'']]"

definition demoStartBucket :: PositionBucket where
  "demoStartBucket =
     newBucket\<lparr> total := 2, moveCounts := [(''g1f3'', 2)],
       toSquareCounts := [(''f3'', 2)], fromSquareCounts := [(''g1'', 2)],
       results := \<lparr> win = 1, loss = 0, draw = 0 \<rparr>,
       userTotal := 1, userMoveCounts := [(''g1f3'', 1)], userToSquareCounts := [(''f3'', 1)],
       userWhiteTotal := 1, userWhiteMoveCounts := [(''g1f3'', 1)],
       userWhiteToSquareCounts := [(''f3'', 1)] \<rparr>"

definition demoReplyBucket :: PositionBucket where
  "demoReplyBucket =
     newBucket\<lparr> total := 1, moveCounts := [(''g8f6'', 1)],
       toSquareCounts := [(''f6'', 1)], fromSquareCounts := [(''g8'', 1)],
       results := \<lparr> win = 1, loss = 0, draw = 0 \<rparr>,
       oppTotal := 1, oppMoveCounts := [(''g8f6'', 1)], oppToSquareCounts := [(''f6'', 1)],
       oppBlackTotal := 1, oppBlackMoveCounts := [(''g8f6'', 1)],
       oppBlackToSquareCounts := [(''f6'', 1)] \<rparr>"

text \<open>
  A stored record of the first format, which has the four global fields only; and an index
  with one bucket of four moves, two pairs of which have equal counts.
\<close>

definition legacyRecord :: SerializedBucket where
  "legacyRecord =
     \<lparr> sb_t = 1, sb_m = [(''g1f3'', 1)], sb_to = [(''f3'', 1)], sb_fr = [(''g1'', 1)],
       sb_r = None, sb_ut = None, sb_um = None, sb_uto = None,
       sb_ot = None, sb_om = None, sb_oto = None,
       sb_uwt = None, sb_uwm = None, sb_uwto = None,
       sb_ubt = None, sb_ubm = None, sb_ubto = None,
       sb_owt = None, sb_owm = None, sb_owto = None,
       sb_obt = None, sb_obm = None, sb_obto = None \<rparr>"



text \<open>
  The outcome that \<open>ingestGamePgn\<close> resolves for a game, by the same tests: \<open>None\<close>
  when the record does not parse, when the result tag is not a decided one, and when the
  identity is neither player. Then the positions that the replay of the game visits before
  a move, and the counter of one outcome at a position, as \<open>getResultStats\<close> reports it.
\<close>

definition gameOutcome :: "'b Chess \<Rightarrow> string \<Rightarrow> string \<Rightarrow> Outcome option" where
  "gameOutcome eng username pgn =
     (case loadPgn eng pgn of
        None \<Rightarrow> None
      | Some (headers, moves) \<Rightarrow>
          (let userLower = toLowerCase (trim username);
               whiteName = toLowerCase (trim (header headers ''White''));
               blackName = toLowerCase (trim (header headers ''Black''));
               resultTag = trim (header headers ''Result'')
           in if resultTag = ''1-0'' \<or> resultTag = ''0-1'' \<or> resultTag = ''1/2-1/2''
              then (if userLower \<noteq> whiteName \<and> userLower \<noteq> blackName then None
                    else if resultTag = ''1/2-1/2'' then Some Draw
                    else if resultTag = ''1-0''
                         then Some (if userLower = whiteName then Win else Loss)
                         else Some (if userLower = blackName then Win else Loss))
              else None))"

definition visited :: "'b Chess \<Rightarrow> string \<Rightarrow> string set" where
  "visited eng pgn =
     (case loadPgn eng pgn of
        None \<Rightarrow> {}
      | Some (headers, moves) \<Rightarrow> set (sanPositions eng (newChess eng) moves))"

definition resultCount :: "Outcome \<Rightarrow> MoveIndex \<Rightarrow> string \<Rightarrow> int" where
  "resultCount oc idx fen =
     (case oc of
        Win \<Rightarrow> statWin (getResultStats idx fen)
      | Loss \<Rightarrow> statLoss (getResultStats idx fen)
      | Draw \<Rightarrow> statDraw (getResultStats idx fen))"

text \<open>
  An engine whose position identifiers leave out the two move counters, on the game
  1. Nf3 Nf6 2. Ng1 Ng8 3. Nf3: its boards are the numbers of moves played, and the fourth
  move brings the starting position back. (The identifiers of chess.js contain the
  counters, so there no position comes twice in one game.)
\<close>

definition shuffleFen :: "nat \<Rightarrow> string" where
  "shuffleFen n =
     (if n mod 4 = 0 then ''rnbqkbnr/pppppppp/8/8/8/8/PPPPPPPP/RNBQKBNR w KQkq -''
      else if n mod 4 = 1 then ''rnbqkbnr/pppppppp/8/8/8/5N2/PPPPPPPP/RNBQKB1R b KQkq -''
      else if n mod 4 = 2 then ''rnbqkb1r/pppppppp/5n2/8/8/5N2/PPPPPPPP/RNBQKB1R w KQkq -''
      else ''rnbqkb1r/pppppppp/5n2/8/8/8/PPPPPPPP/RNBQKBNR b KQkq -'')"

definition shuffleMoveSan :: "nat \<Rightarrow> string \<Rightarrow> (nat \<times> Move) option" where
  "shuffleMoveSan n san =
     (if n mod 4 = 0 \<and> san = ''Nf3'' then Some (n + 1, whiteNf3)
      else if n mod 4 = 1 \<and> san = ''Nf6'' then Some (n + 1, blackNf6)
      else if n mod 4 = 2 \<and> san = ''Ng1''
        then Some (n + 1, \<lparr> moveFrom = ''f3'', moveTo = ''g1'', movePromotion = None,
                              moveColor = White \<rparr>)
      else if n mod 4 = 3 \<and> san = ''Ng8''
        then Some (n + 1, \<lparr> moveFrom = ''f6'', moveTo = ''g8'', movePromotion = None,
                              moveColor = Black \<rparr>)
      else None)"

definition shuffleGame :: string where
  "shuffleGame =
     tagPair ''White'' ''alice'' @ tagPair ''Black'' ''bob'' @ tagPair ''Result'' ''1-0''
       @ [CHR 0x0A] @ ''1. Nf3 Nf6 2. Ng1 Ng8 3. Nf3 1-0''"

definition shuffle :: "nat Chess" where
  "shuffle = \<lparr> newChess = 0, fenOf = shuffleFen,
               moveObj = (\<lambda>n from to promotion. None),
               moveSan = shuffleMoveSan,
               loadPgn = (\<lambda>pgn. if pgn = shuffleGame
                                 then Some ([(''White'', ''alice''), (''Black'', ''bob''),
                                             (''Result'', ''1-0'')],
                                            [''Nf3'', ''Nf6'', ''Ng1'', ''Ng8'', ''Nf3''])
                                 else None) \<rparr>"


section \<open>Bucket properties kept by ingestion\<close>

lemma sumCounts_bump: "sumCounts (bump k m) = sumCounts m + 1"
  by (induction m) (auto simp: bump_def sumCounts_def)

lemma map_of_addMove:
  "map_of (addMove fen' from to promotion byUser color idx) fen =
     (if fen = fen'
      then Some (addRole byUser color (moveKey from to promotion) to
                   (addGlobal (moveKey from to promotion) from to (bucketOrNew idx fen')))
      else map_of idx fen)"
  by (simp add: addMove_def Let_def update_conv')

lemma map_of_addResult:
  "map_of (addResult fen' oc idx) fen =
     (if fen = fen'
      then Some ((bucketOrNew idx fen')\<lparr> results := bumpResult oc (results (bucketOrNew idx fen')) \<rparr>)
      else map_of idx fen)"
  by (simp add: addResult_def Let_def update_conv')

lemma holdsAt_bucketOrNew: "holdsAt P idx fen \<Longrightarrow> P newBucket \<Longrightarrow> P (bucketOrNew idx fen)"
  by (simp add: holdsAt_def bucketOrNew_def split: option.splits)

lemma holdsAt_addMove_role:
  assumes "roleClosed P" and "holdsAt P idx fen"
  shows "holdsAt P (addMove fen' from to promotion (Some u) (Some c) idx) fen"
proof (cases "fen = fen'")
  case True
  have "P (bucketOrNew idx fen')"
    using assms True by (simp add: holdsAt_bucketOrNew roleClosed_def)
  with assms(1) True show ?thesis
    by (simp add: holdsAt_def map_of_addMove roleClosed_def)
next
  case False
  with assms(2) show ?thesis by (simp add: holdsAt_def map_of_addMove)
qed

lemma holdsAt_addMove_bare:
  assumes "P newBucket" and "holdsAt P idx fen" and "bareClosed P \<or> fen \<noteq> fen'"
  shows "holdsAt P (addMove fen' from to promotion None None idx) fen"
proof (cases "fen = fen'")
  case True
  have "P (bucketOrNew idx fen')"
    using assms True by (simp add: holdsAt_bucketOrNew)
  with assms(3) True show ?thesis
    by (simp add: holdsAt_def map_of_addMove bareClosed_def addRole_def)
next
  case False
  with assms(2) show ?thesis by (simp add: holdsAt_def map_of_addMove)
qed

lemma holdsAt_addResult:
  assumes "roleClosed P" and "holdsAt P idx fen"
  shows "holdsAt P (addResult fen' oc idx) fen"
proof (cases "fen = fen'")
  case True
  have "P (bucketOrNew idx fen')"
    using assms True by (simp add: holdsAt_bucketOrNew roleClosed_def)
  with assms(1) True show ?thesis
    by (simp add: holdsAt_def map_of_addResult roleClosed_def)
next
  case False
  with assms(2) show ?thesis by (simp add: holdsAt_def map_of_addResult)
qed

lemma holdsAt_ingestUciLoop:
  assumes "P newBucket" and "bareClosed P \<or> fen \<notin> set (uciPositions eng chess ms)"
    and "holdsAt P idx fen"
  shows "holdsAt P (ingestUciLoop eng chess ms idx) fen"
  using assms(2,3)
proof (induction ms arbitrary: chess idx)
  case Nil
  then show ?case by simp
next
  case (Cons uci rest)
  let ?from = "take 2 uci" and ?to = "take 2 (drop 2 uci)"
  let ?promotion = "if length uci > 4 then Some (take 1 (drop 4 uci)) else None"
  let ?idx1 = "addMove (fenOf eng chess) ?from ?to ?promotion None None idx"
  have step: "holdsAt P ?idx1 fen"
    using Cons.prems assms(1) by (intro holdsAt_addMove_bare) auto
  show ?case
  proof (cases "moveObj eng chess ?from ?to ?promotion")
    case None
    with step show ?thesis by (simp add: Let_def)
  next
    case (Some r)
    obtain chess1 mv where r: "r = (chess1, mv)" by (cases r)
    have "bareClosed P \<or> fen \<notin> set (uciPositions eng chess1 rest)"
      using Cons.prems(1) Some r by auto
    from Cons.IH [OF this step] Some r show ?thesis by (simp add: Let_def)
  qed
qed

lemma holdsAt_ingestSanLoop:
  assumes "P newBucket" and "bareClosed P \<or> fen \<notin> set (sanPositions eng chess ms)"
    and "holdsAt P idx fen"
  shows "holdsAt P (ingestSanLoop eng chess ms idx) fen"
  using assms(2,3)
proof (induction ms arbitrary: chess idx)
  case Nil
  then show ?case by simp
next
  case (Cons san rest)
  show ?case
  proof (cases "moveSan eng chess san")
    case None
    with Cons.prems show ?thesis by (simp add: Let_def)
  next
    case (Some r)
    obtain chess1 mv where r: "r = (chess1, mv)" by (cases r)
    let ?idx1 = "addMove (fenOf eng chess) (moveFrom mv) (moveTo mv) (movePromotion mv) None None idx"
    have step: "holdsAt P ?idx1 fen"
      using Cons.prems assms(1) Some r by (intro holdsAt_addMove_bare) auto
    have "bareClosed P \<or> fen \<notin> set (sanPositions eng chess1 rest)"
      using Cons.prems(1) Some r by auto
    from Cons.IH [OF this step] Some r show ?thesis by (simp add: Let_def)
  qed
qed

lemma holdsAt_ingestPgnLoop:
  assumes "roleClosed P" and "holdsAt P idx fen"
  shows "holdsAt P (ingestPgnLoop eng userLower whiteName blackName outcome walker seen ms idx) fen"
  using assms(2)
proof (induction ms arbitrary: walker seen idx)
  case Nil
  then show ?case by simp
next
  case (Cons san rest)
  show ?case
  proof (cases "moveSan eng walker san")
    case None
    with Cons.prems show ?thesis by (simp add: Let_def)
  next
    case (Some r)
    obtain walker1 m where r: "r = (walker1, m)" by (cases r)
    let ?byUser = "(moveColor m = White \<and> userLower = whiteName)
                   \<or> (moveColor m = Black \<and> userLower = blackName)"
    let ?idx1 = "addMove (fenOf eng walker) (moveFrom m) (moveTo m) (movePromotion m)
                   (Some ?byUser) (Some (moveColor m)) idx"
    have step: "holdsAt P ?idx1 fen"
      using assms(1) Cons.prems by (rule holdsAt_addMove_role)
    have step2: "holdsAt P (addResult (fenOf eng walker) oc ?idx1) fen" for oc
      using assms(1) step by (rule holdsAt_addResult)
    show ?thesis
    proof (cases outcome)
      case None
      with Some r Cons.IH [OF step] show ?thesis by (simp add: Let_def)
    next
      case (Some oc)
      with \<open>moveSan eng walker san = Some r\<close> r Cons.IH [OF step] Cons.IH [OF step2]
      show ?thesis by (simp add: Let_def)
    qed
  qed
qed

lemma ingestGamePgn_cases:
  "ingestGamePgn eng username pgn idx = idx
   \<or> (\<exists>userLower whiteName blackName outcome ms.
         ingestGamePgn eng username pgn idx =
           ingestPgnLoop eng userLower whiteName blackName outcome (newChess eng) {} ms idx)"
proof (cases "loadPgn eng pgn")
  case None
  then show ?thesis by (simp add: ingestGamePgn_def)
next
  case (Some r)
  obtain headers moves where r: "r = (headers, moves)" by (cases r)
  define tag where "tag = trim (header headers ''Result'')"
  define u where "u = toLowerCase (trim username)"
  define w where "w = toLowerCase (trim (header headers ''White''))"
  define b where "b = toLowerCase (trim (header headers ''Black''))"
  show ?thesis
  proof (cases "tag = ''1-0'' \<or> tag = ''0-1'' \<or> tag = ''1/2-1/2''")
    case decided: True
    show ?thesis
    proof (cases "u \<noteq> w \<and> u \<noteq> b")
      case True
      with decided have "ingestGamePgn eng username pgn idx = idx"
        by (simp add: ingestGamePgn_def Let_def Some r tag_def u_def w_def b_def)
      then show ?thesis by simp
    next
      case False
      with decided have "ingestGamePgn eng username pgn idx =
          ingestPgnLoop eng u w b
            (Some (if tag = ''1/2-1/2'' then Draw
                   else if tag = ''1-0'' then (if u = w then Win else Loss)
                   else (if u = b then Win else Loss)))
            (newChess eng) {} moves idx"
        by (auto simp: ingestGamePgn_def Let_def Some r tag_def u_def w_def b_def)
      then show ?thesis by blast
    qed
  next
    case False
    then have "ingestGamePgn eng username pgn idx =
        ingestPgnLoop eng u w b None (newChess eng) {} moves idx"
      by (simp add: ingestGamePgn_def Let_def Some r tag_def u_def w_def b_def)
    then show ?thesis by blast
  qed
qed

lemma holdsAt_ingestGamePgn:
  assumes "roleClosed P" and "holdsAt P idx fen"
  shows "holdsAt P (ingestGamePgn eng username pgn idx) fen"
  using assms(2) holdsAt_ingestPgnLoop [OF assms] ingestGamePgn_cases [of eng username pgn idx]
  by auto

lemma holdsAt_empty: "holdsAt P [] fen"
  by (simp add: holdsAt_def)

lemma holdsAt_applyOperation:
  assumes "roleClosed P" and "bareClosed P \<or> fen \<notin> barePositions eng op"
    and "holdsAt P idx fen"
  shows "holdsAt P (applyOperation eng op idx) fen"
proof (cases op)
  case (IngestUciMoves ms)
  with assms show ?thesis
    by (simp add: ingestUciMoves_def holdsAt_ingestUciLoop roleClosed_def)
next
  case (IngestSanMoves ms)
  with assms show ?thesis
    by (simp add: ingestSanMoves_def holdsAt_ingestSanLoop roleClosed_def)
next
  case (IngestGamePgn username pgn)
  with assms show ?thesis by (simp add: holdsAt_ingestGamePgn)
next
  case Clear
  then show ?thesis by (simp add: clear_def holdsAt_empty)
qed

lemma holdsAt_fold:
  assumes "roleClosed P" and "bareClosed P \<or> (\<forall>op \<in> set ops. fen \<notin> barePositions eng op)"
    and "holdsAt P idx fen"
  shows "holdsAt P (fold (applyOperation eng) ops idx) fen"
  using assms(2,3)
proof (induction ops arbitrary: idx)
  case Nil
  then show ?case by simp
next
  case (Cons op ops)
  have "holdsAt P (applyOperation eng op idx) fen"
    using assms(1) Cons.prems by (intro holdsAt_applyOperation) auto
  moreover have "bareClosed P \<or> (\<forall>op \<in> set ops. fen \<notin> barePositions eng op)"
    using Cons.prems(1) by auto
  ultimately show ?case using Cons.IH by simp
qed

lemma holdsAt_built:
  assumes "roleClosed P" and "bareClosed P \<or> (\<forall>op \<in> set ops. fen \<notin> barePositions eng op)"
  shows "holdsAt P (built eng ops) fen"
  unfolding built_def using assms holdsAt_empty by (rule holdsAt_fold)

section \<open>Invariants of a built index\<close>

lemma roleClosed_marginalsAgree: "roleClosed marginalsAgree"
  unfolding roleClosed_def marginalsAgree_def
  by (auto simp: newBucket_def sumCounts_def addRole_def addUser_def addOpp_def addGlobal_def
        Let_def sumCounts_bump [unfolded sumCounts_def] split: bool.splits Color.splits)

lemma bareClosed_marginalsAgree: "bareClosed marginalsAgree"
  unfolding bareClosed_def marginalsAgree_def
  by (auto simp: addGlobal_def sumCounts_bump)

lemma roleClosed_rolesWithinTotal: "roleClosed rolesWithinTotal"
  unfolding roleClosed_def rolesWithinTotal_def
  by (auto simp: newBucket_def addRole_def addUser_def addOpp_def addGlobal_def
        Let_def split: bool.splits Color.splits)

lemma bareClosed_rolesWithinTotal: "bareClosed rolesWithinTotal"
  unfolding bareClosed_def rolesWithinTotal_def
  by (auto simp: addGlobal_def)

lemma roleClosed_rolesCoverTotal: "roleClosed rolesCoverTotal"
  unfolding roleClosed_def rolesCoverTotal_def
  by (auto simp: newBucket_def addRole_def addUser_def addOpp_def addGlobal_def
        Let_def split: bool.splits Color.splits)

text \<open>
  C4. In an index built from the empty index by any sequence of \<open>ingestUciMoves\<close>,
  \<open>ingestSanMoves\<close>, \<open>ingestGamePgn\<close> and \<open>clear\<close>, with any rules engine, every bucket
  has \<open>total\<close> equal to the sum of the values of \<open>moveCounts\<close>, of \<open>toSquareCounts\<close> and of
  \<open>fromSquareCounts\<close>.
\<close>

theorem marginal_consistency:
  assumes "getBucket (built eng ops) fen = Some b"
  shows "total b = sumCounts (moveCounts b)
         \<and> sumCounts (moveCounts b) = sumCounts (toSquareCounts b)
         \<and> sumCounts (toSquareCounts b) = sumCounts (fromSquareCounts b)"
proof -
  have "holdsAt marginalsAgree (built eng ops) fen"
    using roleClosed_marginalsAgree bareClosed_marginalsAgree by (intro holdsAt_built) simp_all
  with assms have "marginalsAgree b" by (simp add: holdsAt_def getBucket_def)
  then show ?thesis by (simp add: marginalsAgree_def)
qed

theorem marginal_consistency_witness:
  "getBucket (built frag demoOps) startFen = Some demoStartBucket
   \<and> total demoStartBucket = sumCounts (moveCounts demoStartBucket)
   \<and> sumCounts (moveCounts demoStartBucket) = sumCounts (toSquareCounts demoStartBucket)
   \<and> sumCounts (toSquareCounts demoStartBucket) = sumCounts (fromSquareCounts demoStartBucket)"
proof -
  have h: "getBucket (built frag demoOps) startFen = Some demoStartBucket" by code_simp
  from marginal_consistency [OF h] h show ?thesis by simp
qed

text \<open>
  C5. In an index built from the empty index by any sequence of ingestion operations,
  every bucket has \<open>userTotal + oppTotal \<le> total\<close>, with equality when no move was
  recorded for its position without a role (that is, by \<open>ingestUciMoves\<close> or
  \<open>ingestSanMoves\<close>), and \<open>userWhiteTotal + userBlackTotal = userTotal\<close> and
  \<open>oppWhiteTotal + oppBlackTotal = oppTotal\<close>.
\<close>

theorem role_partition:
  assumes "getBucket (built eng ops) fen = Some b"
  shows "userTotal b + oppTotal b \<le> total b
         \<and> ((\<forall>op \<in> set ops. fen \<notin> barePositions eng op) \<longrightarrow> userTotal b + oppTotal b = total b)
         \<and> userWhiteTotal b + userBlackTotal b = userTotal b
         \<and> oppWhiteTotal b + oppBlackTotal b = oppTotal b"
proof -
  have "holdsAt rolesWithinTotal (built eng ops) fen"
    using roleClosed_rolesWithinTotal bareClosed_rolesWithinTotal
    by (intro holdsAt_built) simp_all
  with assms have within: "rolesWithinTotal b" by (simp add: holdsAt_def getBucket_def)
  have "rolesCoverTotal b" if "\<forall>op \<in> set ops. fen \<notin> barePositions eng op"
  proof -
    have "holdsAt rolesCoverTotal (built eng ops) fen"
      using roleClosed_rolesCoverTotal that by (intro holdsAt_built) simp_all
    with assms show ?thesis by (simp add: holdsAt_def getBucket_def)
  qed
  with within show ?thesis by (simp add: rolesWithinTotal_def rolesCoverTotal_def)
qed

theorem role_partition_witness:
  "getBucket (built frag demoOps) afterNf3Fen = Some demoReplyBucket
   \<and> afterNf3Fen \<notin> (\<Union>op \<in> set demoOps. barePositions frag op)
   \<and> userTotal demoReplyBucket + oppTotal demoReplyBucket \<le> total demoReplyBucket
   \<and> userTotal demoReplyBucket + oppTotal demoReplyBucket = total demoReplyBucket
   \<and> userWhiteTotal demoReplyBucket + userBlackTotal demoReplyBucket = userTotal demoReplyBucket
   \<and> oppWhiteTotal demoReplyBucket + oppBlackTotal demoReplyBucket = oppTotal demoReplyBucket"
proof -
  have h: "getBucket (built frag demoOps) afterNf3Fen = Some demoReplyBucket" by code_simp
  have bare: "\<forall>op \<in> set demoOps. afterNf3Fen \<notin> barePositions frag op" by code_simp
  then have "afterNf3Fen \<notin> (\<Union>op \<in> set demoOps. barePositions frag op)" by blast
  with role_partition [OF h] h bare show ?thesis by simp
qed

section \<open>Refused moves and games of other players\<close>

lemma ingestUciLoop_refused:
  assumes "moveObj eng chess (take 2 uci) (take 2 (drop 2 uci))
             (if length uci > 4 then Some (take 1 (drop 4 uci)) else None) = None"
  shows "ingestUciLoop eng chess (uci # rest) idx =
           addMove (fenOf eng chess) (take 2 uci) (take 2 (drop 2 uci))
             (if length uci > 4 then Some (take 1 (drop 4 uci)) else None) None None idx"
  using assms by (simp add: Let_def)

lemma ingestSanLoop_refused:
  assumes "moveSan eng chess san = None"
  shows "ingestSanLoop eng chess (san # rest) idx = idx"
  using assms by (simp add: Let_def)

text \<open>
  C2 says that \<open>ingestUciMoves\<close> records nothing for the first refused move of a list.
  The loop of \<open>ingestUciMoves\<close> calls \<open>addMove\<close> before it tries the move, so the refused
  move is counted at the position it was tried in (\<open>ingestUciLoop_refused\<close>), whereas
  \<open>ingestSanMoves\<close> tries the move first and records nothing (\<open>ingestSanLoop_refused\<close>).
  On the list \<open>g1f3\<close>, \<open>g8f6\<close>, \<open>a1a8\<close>, whose third move is illegal (the rook is
  blocked by its own pawn): the engine refuses the third move, and \<open>ingestUciMoves\<close>
  leaves a bucket for the position after 1. Nf3 Nf6 that counts \<open>a1a8\<close> once, where
  \<open>ingestSanMoves\<close> on the same game leaves no bucket for that position.
\<close>

theorem ingestUciMoves_counts_refused_move:
  "moveObj frag AfterNf3Nf6 ''a1'' ''a8'' None = None
   \<and> fenOf frag AfterNf3Nf6 = afterNf3Nf6Fen
   \<and> getBucket (ingestUciMoves frag [''g1f3'', ''g8f6'', ''a1a8''] []) afterNf3Nf6Fen =
       Some (newBucket\<lparr> total := 1, moveCounts := [(''a1a8'', 1)],
               toSquareCounts := [(''a8'', 1)], fromSquareCounts := [(''a1'', 1)] \<rparr>)
   \<and> getBucket (ingestSanMoves frag [''Nf3'', ''Nf6'', ''Ra8''] []) afterNf3Nf6Fen = None"
  by code_simp

lemma ingestGamePgn_skips_decided_stranger:
  assumes "loadPgn eng pgn = Some (headers, moves)"
    and "trim (header headers ''Result'') \<in> {''1-0'', ''0-1'', ''1/2-1/2''}"
    and "toLowerCase (trim username) \<noteq> toLowerCase (trim (header headers ''White''))"
    and "toLowerCase (trim username) \<noteq> toLowerCase (trim (header headers ''Black''))"
  shows "ingestGamePgn eng username pgn idx = idx"
  using assms by (auto simp: ingestGamePgn_def Let_def)

text \<open>
  C1 says that \<open>ingestGamePgn\<close> leaves the index unchanged for a game in which the tracked
  identity is neither White nor Black. The test for it, marked in the source as skipping
  the games of other players, stands inside the branch for a decided result
  (\<open>1-0\<close>, \<open>0-1\<close>, \<open>1/2-1/2\<close>), where it does skip the game
  (\<open>ingestGamePgn_skips_decided_stranger\<close>). With any other result tag the game is
  replayed and each of its moves is counted as a move of the opponent: for the identity
  \<open>alice\<close> and the game of bob against carol with result \<open>*\<close>, the empty index gets
  two buckets, and the one of the starting position has \<open>oppTotal = 1\<close>.
\<close>

theorem ingestGamePgn_indexes_undecided_stranger_game:
  "loadPgn frag (gameRecord ''bob'' ''carol'' ''*'') =
     Some ([(''White'', ''bob''), (''Black'', ''carol''), (''Result'', ''*'')], [''Nf3'', ''Nf6''])
   \<and> toLowerCase (trim ''alice'') \<noteq> toLowerCase (trim ''bob'')
   \<and> toLowerCase (trim ''alice'') \<noteq> toLowerCase (trim ''carol'')
   \<and> size_of (ingestGamePgn frag ''alice'' (gameRecord ''bob'' ''carol'' ''*'') []) = 2
   \<and> getBucket (ingestGamePgn frag ''alice'' (gameRecord ''bob'' ''carol'' ''*'') []) startFen =
       Some (newBucket\<lparr> total := 1, moveCounts := [(''g1f3'', 1)],
               toSquareCounts := [(''f3'', 1)], fromSquareCounts := [(''g1'', 1)],
               oppTotal := 1, oppMoveCounts := [(''g1f3'', 1)], oppToSquareCounts := [(''f3'', 1)],
               oppWhiteTotal := 1, oppWhiteMoveCounts := [(''g1f3'', 1)],
               oppWhiteToSquareCounts := [(''f3'', 1)] \<rparr>)"
  by code_simp

section \<open>Serialization round trip\<close>

lemma set_update_subset: "set (AList.update k v al) \<subseteq> insert (k, v) (set al)"
  by (induction al) auto






lemma map_of_member:
  "distinct (map fst xs) \<Longrightarrow> x \<in> set xs \<Longrightarrow> map_of xs (fst x) = Some (snd x)"
  by (cases x) simp






lemma built_induct:
  assumes empty: "Q []"
    and move: "\<And>idx fen from to promotion byUser color.
                 Q idx \<Longrightarrow> Q (addMove fen from to promotion byUser color idx)"
    and result: "\<And>idx fen oc. Q idx \<Longrightarrow> Q (addResult fen oc idx)"
  shows "Q (built eng ops)"
proof -
  have uci: "Q (ingestUciLoop eng chess ms idx)" if "Q idx" for chess ms idx
    using that
  proof (induction ms arbitrary: chess idx)
    case Nil
    then show ?case by simp
  next
    case (Cons uci rest)
    then show ?case by (auto simp: Let_def move split: option.splits)
  qed
  have san: "Q (ingestSanLoop eng chess ms idx)" if "Q idx" for chess ms idx
    using that
  proof (induction ms arbitrary: chess idx)
    case Nil
    then show ?case by simp
  next
    case (Cons san rest)
    then show ?case by (auto simp: Let_def move split: option.splits)
  qed
  have pgn: "Q (ingestPgnLoop eng u w b oc walker seen ms idx)" if "Q idx"
    for u w b oc walker seen ms idx
    using that
  proof (induction ms arbitrary: walker seen idx)
    case Nil
    then show ?case by simp
  next
    case (Cons san rest)
    then show ?case by (auto simp: Let_def move result split: option.splits)
  qed
  have game: "Q (ingestGamePgn eng username pgn idx)" if "Q idx" for username pgn idx
    using that pgn ingestGamePgn_cases [of eng username pgn idx] by auto
  have op: "Q (applyOperation eng op idx)" if "Q idx" for op idx
    using that by (cases op) (simp_all add: ingestUciMoves_def ingestSanMoves_def clear_def
        uci san game empty)
  have "Q (fold (applyOperation eng) ops idx)" if "Q idx" for idx
    using that by (induction ops arbitrary: idx) (simp_all add: op)
  then show ?thesis by (simp add: built_def empty)
qed

lemma distinct_keys_built: "distinct (map fst (built eng ops))"
  by (rule built_induct) (simp_all add: addMove_def addResult_def Let_def distinct_update)

lemma distinct_bump: "distinct (map fst m) \<Longrightarrow> distinct (map fst (bump k m))"
  by (simp add: bump_def distinct_update)

lemma roleClosed_mapsDistinct: "roleClosed mapsDistinct"
  unfolding roleClosed_def mapsDistinct_def
  by (auto simp: newBucket_def addRole_def addUser_def addOpp_def addGlobal_def
        Let_def distinct_bump split: bool.splits Color.splits)

lemma bareClosed_mapsDistinct: "bareClosed mapsDistinct"
  unfolding bareClosed_def mapsDistinct_def
  by (auto simp: addGlobal_def distinct_bump)

lemma wellFormed_built: "wellFormed (built eng ops)"
proof -
  have "mapsDistinct (snd p)" if "p \<in> set (built eng ops)" for p
  proof -
    have "holdsAt mapsDistinct (built eng ops) (fst p)"
      using roleClosed_mapsDistinct bareClosed_mapsDistinct by (intro holdsAt_built) simp_all
    moreover have "map_of (built eng ops) (fst p) = Some (snd p)"
      using distinct_keys_built that by (rule map_of_member)
    ultimately show ?thesis by (simp add: holdsAt_def)
  qed
  with distinct_keys_built show ?thesis by (auto simp: wellFormed_def)
qed

lemma distinct_newMap: "distinct (map fst (newMap pairs))"
proof -
  have "distinct (map fst (fold (\<lambda>p m. AList.update (fst p) (snd p) m) pairs acc))"
    if "distinct (map fst acc)" for acc
    using that by (induction pairs arbitrary: acc) (simp_all add: distinct_update)
  then show ?thesis by (simp add: newMap_def)
qed

lemma mapsDistinct_deserializeBucket: "mapsDistinct (deserializeBucket s)"
  by (simp add: mapsDistinct_def deserializeBucket_def distinct_newMap)

lemma wellFormed_fromSerialized: "wellFormed (fromSerialized data)"
proof -
  let ?g = "\<lambda>fen idx. case map_of data fen of
                         None \<Rightarrow> idx
                       | Some s \<Rightarrow> AList.update fen (deserializeBucket s) idx"
  have gen: "wellFormed (fold ?g ks acc)" if "wellFormed acc" for ks acc
    using that
  proof (induction ks arbitrary: acc)
    case Nil
    then show ?case by simp
  next
    case (Cons k ks)
    have "wellFormed (?g k acc)"
    proof (cases "map_of data k")
      case None
      with Cons.prems show ?thesis by simp
    next
      case (Some s)
      with Cons.prems set_update_subset [of k "deserializeBucket s" acc] show ?thesis
        by (auto simp: wellFormed_def distinct_update mapsDistinct_deserializeBucket)
    qed
    with Cons.IH show ?case by simp
  qed
  have "wellFormed []" by (simp add: wellFormed_def)
  then have "wellFormed (fold ?g (map fst data) [])" by (rule gen)
  then show ?thesis by (simp add: fromSerialized_def)
qed

section \<open>Reading stored records with missing fields\<close>

lemma getBucket_fromSerialized:
  "getBucket (fromSerialized data) fen = map_option deserializeBucket (map_of data fen)"
proof -
  let ?g = "\<lambda>fen idx. case map_of data fen of
                         None \<Rightarrow> idx
                       | Some s \<Rightarrow> AList.update fen (deserializeBucket s) idx"
  have gen: "map_of (fold ?g ks acc) fen =
               (if fen \<in> set ks
                then (case map_of data fen of
                        None \<Rightarrow> map_of acc fen
                      | Some s \<Rightarrow> Some (deserializeBucket s))
                else map_of acc fen)" for ks acc
    by (induction ks arbitrary: acc) (auto simp: update_conv' split: option.splits)
  have "fen \<notin> set (map fst data) \<Longrightarrow> map_of data fen = None"
    by (simp add: map_of_eq_None_iff)
  then show ?thesis
    unfolding getBucket_def fromSerialized_def gen
    by (auto split: option.splits)
qed

text \<open>
  C8. \<open>fromSerialized\<close> is a total function of the stored data: it returns an index for
  every input of its type. For every stored record, the bucket it rebuilds at the record's
  position has zero counters \<open>win\<close>, \<open>loss\<close>, \<open>draw\<close> when the field \<open>r\<close> is
  missing, a zero total for each missing total among \<open>ut\<close>, \<open>ot\<close>, \<open>uwt\<close>,
  \<open>ubt\<close>, \<open>owt\<close>, \<open>obt\<close>, and an empty count map for each missing list among
  \<open>um\<close>, \<open>uto\<close>, \<open>om\<close>, \<open>oto\<close>, \<open>uwm\<close>, \<open>uwto\<close>, \<open>ubm\<close>, \<open>ubto\<close>,
  \<open>owm\<close>, \<open>owto\<close>, \<open>obm\<close>, \<open>obto\<close>.
\<close>

theorem missing_fields_read_as_zero:
  assumes "map_of data fen = Some s"
  shows "\<exists>b. getBucket (fromSerialized data) fen = Some b
     \<and> (sb_r s = None \<longrightarrow> results b = \<lparr> win = 0, loss = 0, draw = 0 \<rparr>)
     \<and> (sb_ut s = None \<longrightarrow> userTotal b = 0)
     \<and> (sb_um s = None \<longrightarrow> userMoveCounts b = [])
     \<and> (sb_uto s = None \<longrightarrow> userToSquareCounts b = [])
     \<and> (sb_ot s = None \<longrightarrow> oppTotal b = 0)
     \<and> (sb_om s = None \<longrightarrow> oppMoveCounts b = [])
     \<and> (sb_oto s = None \<longrightarrow> oppToSquareCounts b = [])
     \<and> (sb_uwt s = None \<longrightarrow> userWhiteTotal b = 0)
     \<and> (sb_uwm s = None \<longrightarrow> userWhiteMoveCounts b = [])
     \<and> (sb_uwto s = None \<longrightarrow> userWhiteToSquareCounts b = [])
     \<and> (sb_ubt s = None \<longrightarrow> userBlackTotal b = 0)
     \<and> (sb_ubm s = None \<longrightarrow> userBlackMoveCounts b = [])
     \<and> (sb_ubto s = None \<longrightarrow> userBlackToSquareCounts b = [])
     \<and> (sb_owt s = None \<longrightarrow> oppWhiteTotal b = 0)
     \<and> (sb_owm s = None \<longrightarrow> oppWhiteMoveCounts b = [])
     \<and> (sb_owto s = None \<longrightarrow> oppWhiteToSquareCounts b = [])
     \<and> (sb_obt s = None \<longrightarrow> oppBlackTotal b = 0)
     \<and> (sb_obm s = None \<longrightarrow> oppBlackMoveCounts b = [])
     \<and> (sb_obto s = None \<longrightarrow> oppBlackToSquareCounts b = [])"
proof -
  have "getBucket (fromSerialized data) fen = Some (deserializeBucket s)"
    using assms by (simp add: getBucket_fromSerialized)
  then show ?thesis
    by (simp add: deserializeBucket_def rAt_def orZero_def orEmpty_def newMap_def)
qed

theorem missing_fields_read_as_zero_witness:
  "map_of [(startFen, legacyRecord)] startFen = Some legacyRecord
   \<and> sb_r legacyRecord = None \<and> sb_ut legacyRecord = None \<and> sb_um legacyRecord = None
   \<and> sb_uto legacyRecord = None \<and> sb_ot legacyRecord = None \<and> sb_om legacyRecord = None
   \<and> sb_oto legacyRecord = None \<and> sb_uwt legacyRecord = None \<and> sb_uwm legacyRecord = None
   \<and> sb_uwto legacyRecord = None \<and> sb_ubt legacyRecord = None \<and> sb_ubm legacyRecord = None
   \<and> sb_ubto legacyRecord = None \<and> sb_owt legacyRecord = None \<and> sb_owm legacyRecord = None
   \<and> sb_owto legacyRecord = None \<and> sb_obt legacyRecord = None \<and> sb_obm legacyRecord = None
   \<and> sb_obto legacyRecord = None
   \<and> (\<exists>b. getBucket (fromSerialized [(startFen, legacyRecord)]) startFen = Some b
        \<and> results b = \<lparr> win = 0, loss = 0, draw = 0 \<rparr>
        \<and> userTotal b = 0 \<and> userMoveCounts b = [] \<and> userToSquareCounts b = []
        \<and> oppTotal b = 0 \<and> oppMoveCounts b = [] \<and> oppToSquareCounts b = []
        \<and> userWhiteTotal b = 0 \<and> userWhiteMoveCounts b = [] \<and> userWhiteToSquareCounts b = []
        \<and> userBlackTotal b = 0 \<and> userBlackMoveCounts b = [] \<and> userBlackToSquareCounts b = []
        \<and> oppWhiteTotal b = 0 \<and> oppWhiteMoveCounts b = [] \<and> oppWhiteToSquareCounts b = []
        \<and> oppBlackTotal b = 0 \<and> oppBlackMoveCounts b = [] \<and> oppBlackToSquareCounts b = [])"
proof -
  have h: "map_of [(startFen, legacyRecord)] startFen = Some legacyRecord" by simp
  have n: "sb_r legacyRecord = None" "sb_ut legacyRecord = None" "sb_um legacyRecord = None"
    "sb_uto legacyRecord = None" "sb_ot legacyRecord = None" "sb_om legacyRecord = None"
    "sb_oto legacyRecord = None" "sb_uwt legacyRecord = None" "sb_uwm legacyRecord = None"
    "sb_uwto legacyRecord = None" "sb_ubt legacyRecord = None" "sb_ubm legacyRecord = None"
    "sb_ubto legacyRecord = None" "sb_owt legacyRecord = None" "sb_owm legacyRecord = None"
    "sb_owto legacyRecord = None" "sb_obt legacyRecord = None" "sb_obm legacyRecord = None"
    "sb_obto legacyRecord = None"
    by (simp_all add: legacyRecord_def)
  from missing_fields_read_as_zero [OF h] n h show ?thesis by simp
qed

section \<open>The most played moves\<close>









section \<open>One result per game and position\<close>

lemma results_addRole: "results (addRole byUser color key to (addGlobal key' from to' b)) = results b"
  by (simp add: addRole_def addUser_def addOpp_def addGlobal_def Let_def
        split: option.splits bool.splits Color.splits)

lemma results_bucketOrNew:
  "results (bucketOrNew idx fen) =
     (case map_of idx fen of None \<Rightarrow> \<lparr> win = 0, loss = 0, draw = 0 \<rparr> | Some b \<Rightarrow> results b)"
  by (simp add: bucketOrNew_def newBucket_def split: option.splits)

lemma getResultStats_results:
  "getResultStats idx fen =
     (let r = results (bucketOrNew idx fen)
      in \<lparr> statWin = win r, statLoss = loss r, statDraw = draw r,
           statTotal = win r + loss r + draw r \<rparr>)"
  by (simp add: getResultStats_def bucketOrNew_def newBucket_def Let_def split: option.splits)

lemma bucketOrNew_addMove:
  "results (bucketOrNew (addMove fen' from to promotion byUser color idx) fen)
     = results (bucketOrNew idx fen)"
  by (simp add: bucketOrNew_def [of "addMove fen' from to promotion byUser color idx"]
        map_of_addMove results_addRole)
     (simp add: bucketOrNew_def)

lemma resultCount_addMove:
  "resultCount oc (addMove fen' from to promotion byUser color idx) fen = resultCount oc idx fen"
  by (cases oc) (simp_all add: resultCount_def getResultStats_results bucketOrNew_addMove)

lemma bucketOrNew_addResult:
  "results (bucketOrNew (addResult fen' oc idx) fen)
     = (if fen = fen' then bumpResult oc (results (bucketOrNew idx fen))
        else results (bucketOrNew idx fen))"
  by (simp add: bucketOrNew_def [of "addResult fen' oc idx"] map_of_addResult)
     (simp add: bucketOrNew_def)

lemma resultCount_addResult:
  "resultCount oc (addResult fen' oc idx) fen
     = resultCount oc idx fen + (if fen = fen' then 1 else 0)"
  by (cases oc)
     (simp_all add: resultCount_def getResultStats_results bucketOrNew_addResult Let_def
        bumpResult_def)

lemma resultCount_ingestPgnLoop:
  "resultCount oc (ingestPgnLoop eng u w b (Some oc) walker seen ms idx) fen
     = resultCount oc idx fen
       + (if fen \<in> set (sanPositions eng walker ms) \<and> fen \<notin> seen then 1 else 0)"
proof (induction ms arbitrary: walker seen idx)
  case Nil
  then show ?case by simp
next
  case (Cons san rest)
  show ?case
  proof (cases "moveSan eng walker san")
    case None
    then show ?thesis by (simp add: Let_def)
  next
    case (Some r)
    obtain walker1 m where r: "r = (walker1, m)" by (cases r)
    let ?f0 = "fenOf eng walker"
    let ?idx1 = "addMove ?f0 (moveFrom m) (moveTo m) (movePromotion m)
                   (Some ((moveColor m = White \<and> u = w) \<or> (moveColor m = Black \<and> u = b)))
                   (Some (moveColor m)) idx"
    show ?thesis
    proof (cases "?f0 \<in> seen")
      case True
      have "resultCount oc (ingestPgnLoop eng u w b (Some oc) walker seen (san # rest) idx) fen
              = resultCount oc (ingestPgnLoop eng u w b (Some oc) walker1 seen rest ?idx1) fen"
        using Some r True by (simp add: Let_def)
      also have "\<dots> = resultCount oc ?idx1 fen
                   + (if fen \<in> set (sanPositions eng walker1 rest) \<and> fen \<notin> seen then 1 else 0)"
        by (rule Cons.IH)
      also have "\<dots> = resultCount oc idx fen
                   + (if fen \<in> set (sanPositions eng walker (san # rest)) \<and> fen \<notin> seen
                      then 1 else 0)"
        using Some r True by (auto simp: resultCount_addMove)
      finally show ?thesis .
    next
      case False
      let ?idx2 = "addResult ?f0 oc ?idx1"
      have "resultCount oc (ingestPgnLoop eng u w b (Some oc) walker seen (san # rest) idx) fen
              = resultCount oc
                  (ingestPgnLoop eng u w b (Some oc) walker1 (insert ?f0 seen) rest ?idx2) fen"
        using Some r False by (simp add: Let_def)
      also have "\<dots> = resultCount oc ?idx2 fen
                   + (if fen \<in> set (sanPositions eng walker1 rest) \<and> fen \<notin> insert ?f0 seen
                      then 1 else 0)"
        by (rule Cons.IH)
      also have "\<dots> = resultCount oc idx fen
                   + (if fen \<in> set (sanPositions eng walker (san # rest)) \<and> fen \<notin> seen
                      then 1 else 0)"
        using Some r False by (auto simp: resultCount_addMove resultCount_addResult)
      finally show ?thesis .
    qed
  qed
qed

lemma ingestGamePgn_resolved:
  assumes "gameOutcome eng username pgn = Some oc"
  obtains headers moves where "loadPgn eng pgn = Some (headers, moves)"
    and "ingestGamePgn eng username pgn idx =
           ingestPgnLoop eng (toLowerCase (trim username))
             (toLowerCase (trim (header headers ''White'')))
             (toLowerCase (trim (header headers ''Black'')))
             (Some oc) (newChess eng) {} moves idx"
proof (cases "loadPgn eng pgn")
  case None
  with assms show ?thesis by (simp add: gameOutcome_def)
next
  case (Some r)
  obtain headers moves where r: "r = (headers, moves)" by (cases r)
  have "ingestGamePgn eng username pgn idx =
           ingestPgnLoop eng (toLowerCase (trim username))
             (toLowerCase (trim (header headers ''White'')))
             (toLowerCase (trim (header headers ''Black'')))
             (Some oc) (newChess eng) {} moves idx"
    using assms Some r
    by (auto simp: gameOutcome_def ingestGamePgn_def Let_def split: if_splits)
  with Some r that show ?thesis by simp
qed

text \<open>
  C7. For a call of \<open>ingestGamePgn\<close> whose resolved outcome is \<open>oc\<close> (so not none),
  and for every position, the counter of \<open>oc\<close> at that position grows by exactly 1 if
  the replay of the game visited the position before a move, and by 0 otherwise; so a
  position visited more than once in the game is counted once.
\<close>

theorem result_once_per_visited_position:
  assumes "gameOutcome eng username pgn = Some oc"
  shows "resultCount oc (ingestGamePgn eng username pgn idx) fen
           = resultCount oc idx fen + (if fen \<in> visited eng pgn then 1 else 0)"
proof -
  from assms obtain headers moves where
    load: "loadPgn eng pgn = Some (headers, moves)" and
    run: "ingestGamePgn eng username pgn idx =
           ingestPgnLoop eng (toLowerCase (trim username))
             (toLowerCase (trim (header headers ''White'')))
             (toLowerCase (trim (header headers ''Black'')))
             (Some oc) (newChess eng) {} moves idx"
    by (rule ingestGamePgn_resolved)
  show ?thesis
    unfolding run resultCount_ingestPgnLoop by (simp add: visited_def load)
qed

theorem result_once_per_visited_position_witness:
  "gameOutcome frag ''alice'' (gameRecord ''alice'' ''bob'' ''1-0'') = Some Win
   \<and> startFen \<in> visited frag (gameRecord ''alice'' ''bob'' ''1-0'')
   \<and> resultCount Win (ingestGamePgn frag ''alice'' (gameRecord ''alice'' ''bob'' ''1-0'') [])
         startFen = 1"
proof -
  have h: "gameOutcome frag ''alice'' (gameRecord ''alice'' ''bob'' ''1-0'') = Some Win"
    by code_simp
  have v: "startFen \<in> visited frag (gameRecord ''alice'' ''bob'' ''1-0'')" by code_simp
  have z: "resultCount Win [] startFen = 0" by code_simp
  from result_once_per_visited_position [OF h, of "[]" startFen] v z h
  show ?thesis by simp
qed

text \<open>A position that the game visits twice: its counter of wins is 1 after the game.\<close>

lemma repeated_position_counted_once:
  "sanPositions shuffle (newChess shuffle) [''Nf3'', ''Nf6'', ''Ng1'', ''Ng8'', ''Nf3'']
     = [shuffleFen 0, shuffleFen 1, shuffleFen 2, shuffleFen 3, shuffleFen 0]
   \<and> getResultStats (ingestGamePgn shuffle ''alice'' shuffleGame []) (shuffleFen 0)
       = \<lparr> statWin = 1, statLoss = 0, statDraw = 0, statTotal = 1 \<rparr>
   \<and> map_option total (getBucket (ingestGamePgn shuffle ''alice'' shuffleGame []) (shuffleFen 0))
       = Some 2"
  by code_simp

section \<open>Normalisation of the identity\<close>









text \<open>The header names are normalised in the same way: a game of \<open>" Alice "\<close> is alice's.\<close>

lemma header_names_normalised:
  "gameOutcome frag ''alice'' (gameRecord '' Alice '' ''bob'' ''1-0'') = Some Win"
  by code_simp

section \<open>What getBucket returns\<close>

lemma contents_map:
  assumes "storeOk st"
  shows "contents st = map (\<lambda>p. (fst p, the (heap st (snd p)))) (slots st)"
proof -
  have "List.map_filter (\<lambda>p. map_option (Pair (fst p)) (h (snd p))) xs
          = map (\<lambda>p. (fst p, the (h (snd p)))) xs"
    if "\<forall>p \<in> set xs. h (snd p) \<noteq> None" for xs :: "(string \<times> Ref) list" and h :: "Ref \<Rightarrow> PositionBucket option"
    using that by (induction xs) (auto simp: List.map_filter_simps)
  with assms show ?thesis by (simp add: contents_def storeOk_def)
qed

lemma slot_of_ref:
  assumes "storeOk st" and "map_of (slots st) fen = Some r" and "p \<in> set (slots st)"
  shows "snd p = r \<longleftrightarrow> fst p = fen"
proof -
  have mem: "(fen, r) \<in> set (slots st)" using assms(2) by (rule map_of_SomeD)
  have keys: "distinct (map fst (slots st))" and refs: "distinct (map snd (slots st))"
    using assms(1) by (simp_all add: storeOk_def)
  show ?thesis
  proof
    assume "snd p = r"
    with refs mem assms(3) have "p = (fen, r)"
      by (metis distinct_map inj_onD snd_conv)
    then show "fst p = fen" by simp
  next
    assume "fst p = fen"
    with keys mem assms(3) have "p = (fen, r)"
      by (metis distinct_map inj_onD fst_conv)
    then show "snd p = r" by simp
  qed
qed

lemma getBucket_contents:
  assumes "storeOk st"
  shows "getBucket (contents st) fen =
           (case map_of (slots st) fen of None \<Rightarrow> None | Some r \<Rightarrow> heap st r)"
proof -
  have "map_of (map (\<lambda>p. (fst p, g (snd p))) xs) k = map_option g (map_of xs k)"
    for g :: "Ref \<Rightarrow> PositionBucket" and xs k
    by (induction xs) auto
  then have "getBucket (contents st) fen = map_option (\<lambda>r. the (heap st r)) (map_of (slots st) fen)"
    using assms by (simp add: getBucket_def contents_map)
  moreover have "heap st r \<noteq> None" if "map_of (slots st) fen = Some r" for r
    using assms map_of_SomeD [OF that] by (auto simp: storeOk_def)
  ultimately show ?thesis by (auto split: option.splits)
qed

lemma storeOk_mutate: "storeOk st \<Longrightarrow> storeOk (mutate r f st)"
  by (auto simp: storeOk_def mutate_def split: option.splits)

lemma contents_mutate:
  assumes "storeOk st" and "map_of (slots st) fen = Some r" and "heap st r = Some b"
  shows "contents (mutate r f st) = map (\<lambda>p. if fst p = fen then (fen, f b) else p) (contents st)"
proof -
  have "contents (mutate r f st)
          = map (\<lambda>p. (fst p, the (heap (mutate r f st) (snd p)))) (slots (mutate r f st))"
    using assms(1) by (intro contents_map storeOk_mutate)
  also have "\<dots> = map (\<lambda>p. (fst p, the (((heap st)(r \<mapsto> f b)) (snd p)))) (slots st)"
    using assms(3) by (simp add: mutate_def)
  also have "\<dots> = map (\<lambda>p. if fst p = fen then (fen, f b) else (fst p, the (heap st (snd p))))
                      (slots st)"
    using slot_of_ref [OF assms(1,2)] by (intro map_cong) auto
  also have "\<dots> = map (\<lambda>p. if fst p = fen then (fen, f b) else p) (contents st)"
    using assms(1) by (simp add: contents_map comp_def)
  finally show ?thesis .
qed



text \<open>
  The operations on the store preserve \<open>storeOk\<close>, and on the contents they are the
  operations on index values.
\<close>

lemma update_as_map:
  "distinct (map fst xs) \<Longrightarrow>
     AList.update k v xs =
       (if k \<in> fst ` set xs then map (\<lambda>p. if fst p = k then (k, v) else p) xs
        else xs @ [(k, v)])"
  by (induction xs) (auto simp: rev_image_eqI intro!: map_idI [symmetric])

lemma keys_contents: "storeOk st \<Longrightarrow> map fst (contents st) = map fst (slots st)"
  by (simp add: contents_map comp_def)

lemma store_step:
  assumes "storeOk st"
  shows "contents (case storeBucketOrNew st fen of (r, st1) \<Rightarrow> mutate r f st1)
           = AList.update fen (f (bucketOrNew (contents st) fen)) (contents st)"
    and "storeOk (case storeBucketOrNew st fen of (r, st1) \<Rightarrow> mutate r f st1)"
proof -
  have keys: "distinct (map fst (contents st))"
    using assms by (simp add: keys_contents storeOk_def)
  have look: "map_of (contents st) fen =
                (case map_of (slots st) fen of None \<Rightarrow> None | Some r \<Rightarrow> heap st r)"
    using getBucket_contents [OF assms] by (simp add: getBucket_def)
  show "contents (case storeBucketOrNew st fen of (r, st1) \<Rightarrow> mutate r f st1)
           = AList.update fen (f (bucketOrNew (contents st) fen)) (contents st)"
  proof (cases "map_of (slots st) fen")
    case (Some r)
    have "(fen, r) \<in> set (slots st)" using Some by (rule map_of_SomeD)
    with assms obtain b where b: "heap st r = Some b" by (auto simp: storeOk_def)
    have present: "fen \<in> fst ` set (contents st)"
      using \<open>(fen, r) \<in> set (slots st)\<close> keys_contents [OF assms]
      by (metis fst_conv image_eqI set_map)
    have "bucketOrNew (contents st) fen = b"
      using look Some b by (simp add: bucketOrNew_def)
    with contents_mutate [OF assms Some b, of f] keys present Some show ?thesis
      by (simp add: storeBucketOrNew_def update_as_map)
  next
    case None
    let ?r = "nextRef st"
    let ?st1 = "st\<lparr> slots := slots st @ [(fen, ?r)], heap := (heap st)(?r \<mapsto> newBucket),
                     nextRef := Suc ?r \<rparr>"
    have absent: "fen \<notin> fst ` set (contents st)"
      using None keys_contents [OF assms] by (metis map_of_eq_None_iff set_map)
    have fresh: "snd p \<noteq> ?r" if "p \<in> set (slots st)" for p
      using assms that by (auto simp: storeOk_def)
    have ok1: "storeOk ?st1"
      using assms None fresh by (auto simp: storeOk_def map_of_eq_None_iff less_Suc_eq)
    have slot1: "map_of (slots ?st1) fen = Some ?r"
      using None by (simp add: map_of_append map_add_def)
    have "contents ?st1 = contents st @ [(fen, newBucket)]"
      using fresh by (simp add: contents_map [OF ok1] contents_map [OF assms])
    moreover have "bucketOrNew (contents st) fen = newBucket"
      using look None by (simp add: bucketOrNew_def)
    moreover have "map (\<lambda>p. if fst p = fen then (fen, f newBucket) else p) (contents st)
                     = contents st"
      using absent by (intro map_idI) auto
    ultimately show ?thesis
      using contents_mutate [OF ok1 slot1, of newBucket f] keys absent None
      by (simp add: storeBucketOrNew_def update_as_map)
  qed
  show "storeOk (case storeBucketOrNew st fen of (r, st1) \<Rightarrow> mutate r f st1)"
  proof (cases "map_of (slots st) fen")
    case (Some r)
    with assms show ?thesis by (simp add: storeBucketOrNew_def storeOk_mutate)
  next
    case None
    have fresh: "snd p \<noteq> nextRef st" if "p \<in> set (slots st)" for p
      using assms that by (auto simp: storeOk_def)
    have "storeOk (st\<lparr> slots := slots st @ [(fen, nextRef st)],
                       heap := (heap st)(nextRef st \<mapsto> newBucket),
                       nextRef := Suc (nextRef st) \<rparr>)"
      using assms None fresh by (auto simp: storeOk_def map_of_eq_None_iff less_Suc_eq)
    with None show ?thesis by (simp add: storeBucketOrNew_def storeOk_mutate)
  qed
qed


lemma storeAddResult_refines:
  assumes "storeOk st"
  shows "contents (storeAddResult fen outcome st) = addResult fen outcome (contents st)"
    and "storeOk (storeAddResult fen outcome st)"
  using store_step [OF assms, where fen = fen
      and f = "\<lambda>b. b\<lparr> results := bumpResult outcome (results b) \<rparr>"]
  by (simp_all add: storeAddResult_def addResult_def Let_def split: prod.splits)




end
